theory Spec2Isabelle
  imports Main
begin

section \<open>The document tree seen by the copy-button script\<close>

text \<open>
  The copy-button script (two variants of one file: an icon variant that retries its
  bootstrap, and an older text-label variant) only looks at the structure of the
  document: tags, class lists, attributes, children and rendered text. An element is
  therefore a tree node. Tag names are written in lower case.
\<close>

datatype node =
    TextNode string
  | Element string "string list" "(string \<times> string) list" "node list"

fun children :: "node \<Rightarrow> node list" where
  "children (TextNode s) = []"
| "children (Element t cl at cs) = cs"

fun attributesOf :: "node \<Rightarrow> (string \<times> string) list" where
  "attributesOf (TextNode s) = []"
| "attributesOf (Element t cl at cs) = at"

text \<open>The two kinds of CSS selector the script passes to \<^verbatim>\<open>querySelector\<close>.\<close>

datatype selector = ByClass string | ByTag string

fun matches :: "selector \<Rightarrow> node \<Rightarrow> bool" where
  "matches sel (TextNode s) = False"
| "matches (ByClass c) (Element t cl at cs) = (c \<in> set cl)"
| "matches (ByTag g) (Element t cl at cs) = (t = g)"

text \<open>All proper descendants of a node, in document (pre-)order.\<close>

fun descendants :: "node \<Rightarrow> node list" where
  "descendants (TextNode s) = []"
| "descendants (Element t cl at cs) = concat (map (\<lambda>c. c # descendants c) cs)"

text \<open>
  \<^verbatim>\<open>el.querySelector(sel)\<close>: the first proper descendant of \<open>el\<close> in document order
  that matches, or nothing (JavaScript's \<^verbatim>\<open>null\<close>).
\<close>

definition querySelector :: "selector \<Rightarrow> node \<Rightarrow> node option" where
  "querySelector sel n = find (matches sel) (descendants n)"

text \<open>\<^verbatim>\<open>document.getElementById(ident)\<close> on a document given by its root.\<close>

definition getElementById :: "string \<Rightarrow> node \<Rightarrow> node option" where
  "getElementById ident document =
     find (\<lambda>n. map_of (attributesOf n) ''id'' = Some ident) (document # descendants document)"

text \<open>
  Modelled from the spec: the host's \<^verbatim>\<open>innerText\<close> getter is not repository code. The
  spec calls it the rendered text (not markup) of an element; it is taken here as the
  text of all descendant text nodes in document order, which is what a browser returns
  for inline content inside a preformatted block. Every descendant contributes,
  whoever inserted it.
\<close>

fun innerText :: "node \<Rightarrow> string" where
  "innerText (TextNode s) = s"
| "innerText (Element t cl at cs) = concat (map innerText cs)"

text \<open>\<^verbatim>\<open>el.style.prop = v\<close>, kept as one attribute per style property.\<close>

definition setStyle :: "string \<Rightarrow> string \<Rightarrow> (string \<times> string) list \<Rightarrow> (string \<times> string) list" where
  "setStyle prop v at = (''style.'' @ prop, v) # filter (\<lambda>kv. fst kv \<noteq> ''style.'' @ prop) at"

text \<open>\<^verbatim>\<open>el.replaceChildren(...)\<close> and the \<^verbatim>\<open>innerText\<close> setter both replace the child list.\<close>

fun replaceChildren :: "node list \<Rightarrow> node \<Rightarrow> node" where
  "replaceChildren new (TextNode s) = TextNode s"
| "replaceChildren new (Element t cl at cs) = Element t cl at new"

section \<open>addCopyButtons\<close>

datatype variant = Icon | Label

text \<open>
  The ancestor classes of the selector list: \<^verbatim>\<open>.highlight-container pre,
  .tool-call-accordion pre\<close> in the icon variant, \<^verbatim>\<open>.highlight pre\<close> in the text variant.
\<close>

fun scopeClasses :: "variant \<Rightarrow> string list" where
  "scopeClasses Icon = [''highlight-container'', ''tool-call-accordion'']"
| "scopeClasses Label = [''highlight'']"

definition copyIcon :: node where
  "copyIcon = Element ''i'' [''bi'', ''bi-clipboard''] [] []"

definition checkIcon :: node where
  "checkIcon = Element ''i'' [''bi'', ''bi-check-lg''] [] []"

text \<open>The button as \<^verbatim>\<open>addCopyButtons\<close> builds it before appending it.\<close>

fun newButton :: "variant \<Rightarrow> node" where
  "newButton Icon =
     Element ''button'' [''copy-code-button''] [(''type'', ''button'')] [copyIcon]"
| "newButton Label =
     Element ''button'' [''copy-code-button''] [(''type'', ''button'')] [TextNode ''Copy'']"

text \<open>
  \<open>inScope v anc cl\<close>: the children of an element with class list \<open>cl\<close> have an ancestor
  carrying one of the scope classes, given that \<open>anc\<close> says so for the element itself.
  \<open>selected anc t\<close>: an element with tag \<open>t\<close> is in the node list of \<^verbatim>\<open>querySelectorAll\<close>
  (a \<^verbatim>\<open>pre\<close> below a scope class; the descendant combinator needs a proper ancestor).
\<close>

definition inScope :: "variant \<Rightarrow> bool \<Rightarrow> string list \<Rightarrow> bool" where
  "inScope v anc cl \<longleftrightarrow> anc \<or> (\<exists>w \<in> set (scopeClasses v). w \<in> set cl)"

definition selected :: "bool \<Rightarrow> string \<Rightarrow> bool" where
  "selected anc t \<longleftrightarrow> anc \<and> t = ''pre''"

text \<open>
  Elements have identity, and \<^verbatim>\<open>forEach\<close> changes them in place. In a tree an element
  is named by its path, the child indices from the root; appending a child to an element
  keeps every path valid.
\<close>

fun nodeAt :: "node \<Rightarrow> nat list \<Rightarrow> node option" where
  "nodeAt n [] = Some n"
| "nodeAt (TextNode s) (i # path) = None"
| "nodeAt (Element t cl at cs) (i # path) = (if i < length cs then nodeAt (cs ! i) path else None)"

fun modifyAt :: "(node \<Rightarrow> node) \<Rightarrow> nat list \<Rightarrow> node \<Rightarrow> node" where
  "modifyAt f [] n = f n"
| "modifyAt f (i # path) (TextNode s) = TextNode s"
| "modifyAt f (i # path) (Element t cl at cs) =
     (if i < length cs then Element t cl at (cs[i := modifyAt f path (cs ! i)])
      else Element t cl at cs)"

function querySelectorAllFrom :: "variant \<Rightarrow> bool \<Rightarrow> node \<Rightarrow> nat list list" where
  "querySelectorAllFrom v anc (TextNode s) = []"
| "querySelectorAllFrom v anc (Element t cl at cs) =
     (if selected anc t then [Nil] else [])
       @ concat (map (\<lambda>i. map ((#) i) (querySelectorAllFrom v (inScope v anc cl) (cs ! i)))
                   [0..<length cs])"
  by pat_completeness auto
termination
proof (relation "measure (\<lambda>(v, anc, n). size n)")
  show "wf (measure (\<lambda>(v, anc, n). size n))"
    by simp
next
  fix v :: variant and anc :: bool and t cl at and cs :: "node list" and i
  assume "i \<in> set [0..<length cs]"
  then have "cs ! i \<in> set cs"
    by simp
  then have "size (cs ! i) \<le> size_list size cs"
    by (rule size_list_estimation') simp
  then show "((v, inScope v anc cl, cs ! i), (v, anc, Element t cl at cs))
      \<in> measure (\<lambda>(v, anc, n). size n)"
    by simp
qed

definition querySelectorAll :: "variant \<Rightarrow> node \<Rightarrow> nat list list" where
  "querySelectorAll v document = querySelectorAllFrom v False document"

text \<open>
  The body of the \<^verbatim>\<open>forEach\<close> callback at one element of the node list: return at
  once if the element has a descendant of class \<^verbatim>\<open>copy-code-button\<close>; otherwise set
  \<^verbatim>\<open>style.position = 'relative'\<close> and append the new button. (The text variant adds
  the click listener after appending, the icon variant before; the listener is
  \<open>copyClickListener\<close> below.)
\<close>

fun appendButton :: "variant \<Rightarrow> node \<Rightarrow> node" where
  "appendButton v (TextNode s) = TextNode s"
| "appendButton v (Element t cl at cs) =
     Element t cl (setStyle ''position'' ''relative'' at) (cs @ [newButton v])"

definition visitPre :: "variant \<Rightarrow> nat list \<Rightarrow> node \<Rightarrow> node" where
  "visitPre v path document =
     (case nodeAt document path of
        None \<Rightarrow> document
      | Some preElement \<Rightarrow>
          if querySelector (ByClass ''copy-code-button'') preElement \<noteq> None then document
          else modifyAt (appendButton v) path document)"

text \<open>
  \<^verbatim>\<open>document.querySelectorAll(...).forEach(function(preElement) {...})\<close>: the node list
  is computed once, before the first element is visited, and visited in document order.
\<close>

definition addCopyButtons :: "variant \<Rightarrow> node \<Rightarrow> node" where
  "addCopyButtons v document = fold (visitPre v) (querySelectorAll v document) document"

text \<open>
  The same scan as a recursion over the tree (\<open>addCopyButtons_tree\<close> below proves them
  equal). An element is visited before its descendants, and what was appended to earlier
  elements lies outside its own subtree, so the guard reads the element as it was before
  the scan. The buttons themselves are not in the node list.
\<close>

fun addCopyButtonsFrom :: "variant \<Rightarrow> bool \<Rightarrow> node \<Rightarrow> node" where
  "addCopyButtonsFrom v anc (TextNode s) = TextNode s"
| "addCopyButtonsFrom v anc (Element t cl at cs) =
     (let preElement = Element t cl at cs;
          cs' = map (addCopyButtonsFrom v (inScope v anc cl)) cs
      in if selected anc t
            \<and> querySelector (ByClass ''copy-code-button'') preElement = None
         then Element t cl (setStyle ''position'' ''relative'' at) (cs' @ [newButton v])
         else Element t cl at cs')"

text \<open>
  The CodeBlocks of a document: the elements of the node list (\<open>nodeAt_blocks\<close> below).
\<close>

fun codeBlocksFrom :: "variant \<Rightarrow> bool \<Rightarrow> node \<Rightarrow> node list" where
  "codeBlocksFrom v anc (TextNode s) = []"
| "codeBlocksFrom v anc (Element t cl at cs) =
     (if selected anc t then [Element t cl at cs] else [])
       @ concat (map (codeBlocksFrom v (inScope v anc cl)) cs)"

definition codeBlocks :: "variant \<Rightarrow> node \<Rightarrow> node list" where
  "codeBlocks v document = codeBlocksFrom v False document"

text \<open>The copy controls attached to a block: its children of class \<^verbatim>\<open>copy-code-button\<close>.\<close>

definition affordances :: "node \<Rightarrow> nat" where
  "affordances b = length (filter (matches (ByClass ''copy-code-button'')) (children b))"

text \<open>The rendered texts of the \<^verbatim>\<open>code\<close> descendants of a node, in document order.\<close>

definition codeTexts :: "node \<Rightarrow> string list" where
  "codeTexts n = map innerText (filter (matches (ByTag ''code'')) (descendants n))"

section \<open>The copy-activate protocol\<close>

text \<open>
  Requests to the host. \<^verbatim>\<open>navigator.clipboard.writeText\<close> is asynchronous: the click
  listener only issues the request, and one of the two continuations runs later.
\<close>

datatype request = ClipboardWriteText string

text \<open>
  The click listener, given the block as it is in the document at the time of the
  click. Icon variant: the text of the first \<^verbatim>\<open>code\<close> descendant, the empty string if there
  is none. Text variant: the text of the whole block.
\<close>

fun copyClickListener :: "variant \<Rightarrow> node \<Rightarrow> request list" where
  "copyClickListener Icon preElement =
     (let codeElement = querySelector (ByTag ''code'') preElement;
          textToCopy = (case codeElement of Some c \<Rightarrow> innerText c | None \<Rightarrow> [])
      in [ClipboardWriteText textToCopy])"
| "copyClickListener Label preElement =
     (let textToCopy = innerText preElement
      in [ClipboardWriteText textToCopy])"

text \<open>
  What a continuation leaves behind: the button, the lines written to
  \<^verbatim>\<open>console.error\<close>, and the timers it set (delay in ms, children the button gets when
  the timer fires).
\<close>

record outcome =
  button :: node
  logged :: "string list"
  scheduled :: "(nat \<times> node list) list"

fun writeFulfilled :: "variant \<Rightarrow> node \<Rightarrow> outcome" where
  "writeFulfilled Icon b =
     \<lparr>button = replaceChildren [checkIcon] b, logged = [], scheduled = [(2000, [copyIcon])]\<rparr>"
| "writeFulfilled Label b =
     \<lparr>button = replaceChildren [TextNode ''Copied!''] b, logged = [],
      scheduled = [(2000, [TextNode ''Copy''])]\<rparr>"

fun writeRejected :: "variant \<Rightarrow> string \<Rightarrow> node \<Rightarrow> outcome" where
  "writeRejected Icon err b =
     \<lparr>button = b, logged = [''Failed to copy text: '' @ err], scheduled = []\<rparr>"
| "writeRejected Label err b =
     \<lparr>button = replaceChildren [TextNode ''Error!''] b,
      logged = [''Failed to copy text: '' @ err],
      scheduled = [(2000, [TextNode ''Copy''])]\<rparr>"

text \<open>The AffordanceState a button presents.\<close>

datatype affordanceState = Idle | Success | Failed

definition stateOf :: "node \<Rightarrow> affordanceState" where
  "stateOf b =
     (if children b = [checkIcon] \<or> children b = [TextNode ''Copied!''] then Success
      else if children b = [TextNode ''Error!''] then Failed
      else Idle)"

section \<open>The structural-change watcher of the copy-button script\<close>

record mutationRecord =
  recordType :: string
  addedNodes :: "node list"

definition inserting :: "mutationRecord \<Rightarrow> bool" where
  "inserting mutation \<longleftrightarrow> recordType mutation = ''childList'' \<and> length (addedNodes mutation) > 0"

text \<open>
  The \<^verbatim>\<open>MutationObserver\<close> callback, run once for a batch \<open>mutations\<close>. The state is the
  document together with a count of the calls of \<^verbatim>\<open>addCopyButtons\<close>.
\<close>

fun observerCallback :: "variant \<Rightarrow> mutationRecord list \<Rightarrow> node \<times> nat \<Rightarrow> node \<times> nat" where
  "observerCallback v [] s = s"
| "observerCallback v (mutation # mutations) s =
     observerCallback v mutations
       (if inserting mutation then (addCopyButtons v (fst s), snd s + 1) else s)"

section \<open>The bootstrap of the icon variant\<close>

definition maxRetries :: nat where
  "maxRetries = 20"

record bootState =
  retries :: nat
  observing :: bool
  rendered :: "node option"
  consoleErrors :: "(nat \<times> string) list"
  timer :: "nat option"
  attempts :: "nat list"

definition bootInit :: bootState where
  "bootInit = \<lparr>retries = 0, observing = False, rendered = None, consoleErrors = [],
     timer = None, attempts = []\<rparr>"

text \<open>
  One call of \<^verbatim>\<open>initializeObserver\<close> at time \<open>now\<close> (in ms) on the document as it is then.
  \<open>attempts\<close> records the time of each \<^verbatim>\<open>getElementById\<close>; \<open>timer\<close> is the delay passed to
  \<^verbatim>\<open>setTimeout\<close>; \<open>rendered\<close> is the document after the first scan.
\<close>

definition initializeObserver :: "nat \<Rightarrow> node \<Rightarrow> bootState \<Rightarrow> bootState" where
  "initializeObserver now document s =
     (let s0 = s\<lparr>attempts := attempts s @ [now]\<rparr>
      in case getElementById ''chat-history'' document of
           Some targetNode \<Rightarrow>
             s0\<lparr>observing := True, rendered := Some (addCopyButtons Icon document)\<rparr>
         | None \<Rightarrow>
             (let s1 = s0\<lparr>retries := retries s0 + 1\<rparr>
              in if retries s1 < maxRetries
                 then s1\<lparr>timer := Some 100\<rparr>
                 else s1\<lparr>consoleErrors := consoleErrors s1 @
                   [(now, ''Failed to find targetNode ('chat-history') after multiple retries.'')]\<rparr>))"

text \<open>
  The page load from \<^verbatim>\<open>DOMContentLoaded\<close> at time \<open>now\<close>: the listener runs
  \<^verbatim>\<open>initializeObserver\<close>, and a pending timer runs it again. \<open>host t\<close> is the document at
  time \<open>t\<close>. A timer never fires early; \<open>late k\<close> is how much later than asked the timer
  set after the \<open>k\<close>-th failure fires.
\<close>

function pageLoad :: "(nat \<Rightarrow> node) \<Rightarrow> (nat \<Rightarrow> nat) \<Rightarrow> nat \<Rightarrow> bootState \<Rightarrow> bootState" where
  "pageLoad host late now s =
     (let s1 = initializeObserver now (host now) (s\<lparr>timer := None\<rparr>)
      in case timer s1 of
           None \<Rightarrow> s1
         | Some delay \<Rightarrow> pageLoad host late (now + delay + late (retries s1)) s1)"
  by pat_completeness auto
termination
  by (relation "measure (\<lambda>(host, late, now, s). maxRetries - retries s)")
     (auto simp: initializeObserver_def Let_def split: option.splits if_splits)

text \<open>Consecutive times at least \<open>gap\<close> apart.\<close>

fun spaced :: "nat \<Rightarrow> nat list \<Rightarrow> bool" where
  "spaced gap [] = True"
| "spaced gap [x] = True"
| "spaced gap (x # y # ys) = (x + gap \<le> y \<and> spaced gap (y # ys))"

section \<open>The scroll policy engine\<close>

text \<open>
  The scroll script keeps references to two elements and attaches listeners to them, so
  its page is a store of elements. Each run of \<^verbatim>\<open>setupScrollHandling\<close> that passes the
  guard creates one closure: the two references it captured and its own
  \<^verbatim>\<open>userIsAtBottom\<close>. Listeners and observers are kept on the element they were added
  to, as the index of the closure they belong to.
\<close>

type_synonym ref = nat

datatype behavior = Auto | Smooth

record element =
  scrollTop :: int
  scrollHeight :: nat
  clientHeight :: nat
  smoothTarget :: "int option"
  attrs :: "(string \<times> string) list"
  styleDisplay :: string
  listeners :: "(string \<times> nat) list"
  observers :: "nat list"

record closure =
  chatHistoryEl :: ref
  scrollToBottomBtn :: ref
  userIsAtBottom :: bool

text \<open>
  \<open>elementById\<close> is the document's id lookup, \<open>timeouts\<close> the timers set (delay, closure),
  \<open>scrollRequests\<close> every \<^verbatim>\<open>scrollTo\<close> call made so far (element, top, behavior).
\<close>

record page =
  elements :: "ref \<Rightarrow> element"
  elementById :: "string \<Rightarrow> ref option"
  closures :: "closure list"
  timeouts :: "(nat \<times> nat) list"
  scrollRequests :: "(ref \<times> int \<times> behavior) list"

definition hasAttribute :: "string \<Rightarrow> element \<Rightarrow> bool" where
  "hasAttribute name e \<longleftrightarrow> map_of (attrs e) name \<noteq> None"

definition setAttribute :: "string \<Rightarrow> string \<Rightarrow> element \<Rightarrow> element" where
  "setAttribute name v e = e\<lparr>attrs := (name, v) # filter (\<lambda>kv. fst kv \<noteq> name) (attrs e)\<rparr>"

definition updateElement :: "ref \<Rightarrow> (element \<Rightarrow> element) \<Rightarrow> page \<Rightarrow> page" where
  "updateElement r f p = p\<lparr>elements := (elements p)(r := f (elements p r))\<rparr>"

text \<open>The largest scroll offset of an element.\<close>

definition maxScrollTop :: "element \<Rightarrow> int" where
  "maxScrollTop e = max 0 (int (scrollHeight e) - int (clientHeight e))"

text \<open>
  Modelled from the spec: the host's scroll-to primitive is not repository code. The spec
  gives it an instant and an animated mode. The requested top is clamped to the
  scrollable range; \<^verbatim>\<open>behavior: 'auto'\<close> moves at once (no smooth scrolling is set by
  the script), \<^verbatim>\<open>'smooth'\<close> starts an animation towards the target.
\<close>

definition scrollTo :: "int \<Rightarrow> behavior \<Rightarrow> element \<Rightarrow> element" where
  "scrollTo y b e =
     (let target = max 0 (min y (maxScrollTop e))
      in case b of
           Auto \<Rightarrow> e\<lparr>scrollTop := target, smoothTarget := None\<rparr>
         | Smooth \<Rightarrow> e\<lparr>smoothTarget := Some target\<rparr>)"

definition isScrolledToBottom :: "element \<Rightarrow> bool" where
  "isScrolledToBottom el =
     (let threshold = 5
      in int (scrollHeight el) - scrollTop el - int (clientHeight el) \<le> threshold)"

definition scrollToBottom :: "closure \<Rightarrow> behavior \<Rightarrow> page \<Rightarrow> page" where
  "scrollToBottom env b p =
     (let y = int (scrollHeight (elements p (chatHistoryEl env)))
      in (updateElement (chatHistoryEl env) (scrollTo y b) p)
           \<lparr>scrollRequests := scrollRequests p @ [(chatHistoryEl env, y, b)]\<rparr>)"

definition setUserIsAtBottom :: "nat \<Rightarrow> bool \<Rightarrow> page \<Rightarrow> page" where
  "setUserIsAtBottom k u p =
     p\<lparr>closures := (closures p)[k := (closures p ! k)\<lparr>userIsAtBottom := u\<rparr>]\<rparr>"

text \<open>The three handlers of closure \<open>k\<close>, and the start-up timer's callback.\<close>

definition scrollListener :: "nat \<Rightarrow> page \<Rightarrow> page" where
  "scrollListener k p =
     (if k < length (closures p) then
        (let env = closures p ! k;
             el = elements p (chatHistoryEl env);
             atBottom = isScrolledToBottom el;
             p1 = setUserIsAtBottom k atBottom p
         in if atBottom
            then updateElement (scrollToBottomBtn env) (\<lambda>e. e\<lparr>styleDisplay := ''none''\<rparr>) p1
            else if scrollHeight el > clientHeight el
                 then updateElement (scrollToBottomBtn env) (\<lambda>e. e\<lparr>styleDisplay := ''block''\<rparr>) p1
                 else p1)
      else p)"

definition clickListener :: "nat \<Rightarrow> page \<Rightarrow> page" where
  "clickListener k p =
     (if k < length (closures p) then scrollToBottom (closures p ! k) Smooth p else p)"

definition mutationCallback :: "nat \<Rightarrow> page \<Rightarrow> page" where
  "mutationCallback k p =
     (if k < length (closures p) then
        (if userIsAtBottom (closures p ! k) then scrollToBottom (closures p ! k) Auto p else p)
      else p)"

definition timeoutCallback :: "nat \<Rightarrow> page \<Rightarrow> page" where
  "timeoutCallback k p =
     (if k < length (closures p) then scrollToBottom (closures p ! k) Auto p else p)"

definition setupScrollHandling :: "page \<Rightarrow> page" where
  "setupScrollHandling p =
     (case (elementById p ''chat-history'', elementById p ''scroll-to-bottom-btn'') of
        (Some c, Some b) \<Rightarrow>
          if hasAttribute ''data-scroll-handler'' (elements p c) then p
          else
            (let k = length (closures p);
                 p1 = updateElement c (setAttribute ''data-scroll-handler'' ''true'') p;
                 p2 = p1\<lparr>closures := closures p1 @
                        [\<lparr>chatHistoryEl = c, scrollToBottomBtn = b, userIsAtBottom = True\<rparr>]\<rparr>;
                 p3 = updateElement c (\<lambda>e. e\<lparr>listeners := listeners e @ [(''scroll'', k)]\<rparr>) p2;
                 p4 = updateElement b (\<lambda>e. e\<lparr>listeners := listeners e @ [(''click'', k)]\<rparr>) p3;
                 p5 = updateElement c (\<lambda>e. e\<lparr>observers := observers e @ [k]\<rparr>) p4
             in p5\<lparr>timeouts := timeouts p5 @ [(200, k)]\<rparr>)
      | _ \<Rightarrow> p)"

text \<open>
  What the host's event loop can hand to the script: an event on an element runs the
  listeners registered there, a timer runs its callback, and a mutation below
  \<^verbatim>\<open>document.body\<close> runs \<^verbatim>\<open>setupScrollHandling\<close> again (the \<^verbatim>\<open>mainObserver\<close>).
\<close>

datatype event =
    ScrollEvent ref
  | ClickEvent ref
  | MutationBatch ref
  | TimeoutFired nat
  | BodyMutation

definition listenersFor :: "string \<Rightarrow> element \<Rightarrow> nat list" where
  "listenersFor ty e = map snd (filter (\<lambda>l. fst l = ty) (listeners e))"

fun dispatch :: "event \<Rightarrow> page \<Rightarrow> page" where
  "dispatch (ScrollEvent r) p = fold scrollListener (listenersFor ''scroll'' (elements p r)) p"
| "dispatch (ClickEvent r) p = fold clickListener (listenersFor ''click'' (elements p r)) p"
| "dispatch (MutationBatch r) p = fold mutationCallback (observers (elements p r)) p"
| "dispatch (TimeoutFired k) p = timeoutCallback k p"
| "dispatch BodyMutation p = setupScrollHandling p"





text \<open>An element with the given scroll height, client height and scroll top, and nothing else.\<close>

definition box :: "nat \<Rightarrow> nat \<Rightarrow> int \<Rightarrow> element" where
  "box sh ch st = \<lparr>scrollTop = st, scrollHeight = sh, clientHeight = ch, smoothTarget = None,
     attrs = [], styleDisplay = [], listeners = [], observers = []\<rparr>"

text \<open>What is installed on an element: its attributes, listeners and observers.\<close>

definition wiring :: "page \<Rightarrow> ref \<Rightarrow> (string \<times> string) list \<times> (string \<times> nat) list \<times> nat list" where
  "wiring p r = (attrs (elements p r), listeners (elements p r), observers (elements p r))"

text \<open>
  A page on which nothing has run yet: the container at reference 0 with the given
  layout, the jump control at reference 1, both findable by their ids.
\<close>

definition freshPage :: "nat \<Rightarrow> nat \<Rightarrow> int \<Rightarrow> page" where
  "freshPage sh ch st =
     \<lparr>elements = (\<lambda>r. if r = 0 then box sh ch st else box 0 0 0),
      elementById = [''chat-history'' \<mapsto> 0, ''scroll-to-bottom-btn'' \<mapsto> 1],
      closures = [], timeouts = [], scrollRequests = []\<rparr>"


section \<open>Properties of the copy-button script\<close>

subsection \<open>The scan only adds buttons\<close>

lemma scan_add:
  assumes "selected anc t \<and> querySelector (ByClass ''copy-code-button'') (Element t cl at cs) = None"
  shows "addCopyButtonsFrom v anc (Element t cl at cs)
    = Element t cl (setStyle ''position'' ''relative'' at)
        (map (addCopyButtonsFrom v (inScope v anc cl)) cs @ [newButton v])"
  unfolding addCopyButtonsFrom.simps Let_def by (rule if_P[OF assms])

lemma scan_keep:
  assumes "\<not> (selected anc t \<and> querySelector (ByClass ''copy-code-button'') (Element t cl at cs) = None)"
  shows "addCopyButtonsFrom v anc (Element t cl at cs)
    = Element t cl at (map (addCopyButtonsFrom v (inScope v anc cl)) cs)"
  unfolding addCopyButtonsFrom.simps Let_def by (rule if_not_P[OF assms])

lemma scan_tag:
  "\<exists>at' cs'. addCopyButtonsFrom v anc (Element t cl at cs) = Element t cl at' cs'"
  by (simp add: Let_def)

declare addCopyButtonsFrom.simps(2) [simp del]

lemma not_selected_button [simp]: "\<not> selected anc ''button''" "\<not> selected anc ''i''"
  by (simp_all add: selected_def)

lemma matches_scan [simp]: "matches sel (addCopyButtonsFrom v anc n) = matches sel n"
proof (cases n)
  case (TextNode s)
  then show ?thesis by simp
next
  case (Element t cl at cs)
  obtain at' cs' where "addCopyButtonsFrom v anc (Element t cl at cs) = Element t cl at' cs'"
    using scan_tag by blast
  with Element show ?thesis by (cases sel) simp_all
qed

lemma newButton_class [simp]: "matches (ByClass ''copy-code-button'') (newButton v)"
  by (cases v) simp_all

lemma newButton_fixed [simp]: "addCopyButtonsFrom v anc (newButton v) = newButton v"
  by (cases v) (simp_all add: scan_keep copyIcon_def)

lemma newButton_no_blocks [simp]: "codeBlocksFrom v anc (newButton v) = []"
  by (cases v) (simp_all add: copyIcon_def)

lemma querySelector_None_iff:
  "querySelector sel n = None \<longleftrightarrow> (\<forall>d \<in> set (descendants n). \<not> matches sel d)"
  by (auto simp: querySelector_def find_None_iff)

lemma descendants_scan_child:
  assumes "c \<in> set cs"
    and "e = addCopyButtonsFrom v (inScope v anc cl) c
       \<or> e \<in> set (descendants (addCopyButtonsFrom v (inScope v anc cl) c))"
  shows "e \<in> set (descendants (addCopyButtonsFrom v anc (Element t cl at cs)))"
proof (cases "selected anc t \<and> querySelector (ByClass ''copy-code-button'') (Element t cl at cs) = None")
  case True
  show ?thesis unfolding scan_add[OF True] using assms by auto
next
  case False
  show ?thesis unfolding scan_keep[OF False] using assms by auto
qed

lemma descendants_scan:
  "d \<in> set (descendants n) \<Longrightarrow> matches sel d
   \<Longrightarrow> \<exists>e \<in> set (descendants (addCopyButtonsFrom v anc n)). matches sel e"
proof (induction n arbitrary: anc d)
  case (TextNode s)
  then show ?case by simp
next
  case (Element t cl at cs)
  from Element.prems obtain c where c: "c \<in> set cs" "d = c \<or> d \<in> set (descendants c)"
    by auto
  let ?inside = "inScope v anc cl"
  show ?case
  proof (cases "d = c")
    case True
    with Element.prems(2) have "matches sel (addCopyButtonsFrom v ?inside c)" by simp
    with descendants_scan_child[OF c(1), of _ v anc cl t at] show ?thesis by blast
  next
    case False
    with c have "d \<in> set (descendants c)" by simp
    from Element.IH[OF c(1) this Element.prems(2), of ?inside]
    obtain e where "e \<in> set (descendants (addCopyButtonsFrom v ?inside c))" "matches sel e"
      by blast
    with descendants_scan_child[OF c(1), of e v anc cl t at] show ?thesis by blast
  qed
qed

lemma guard_scan:
  "querySelector sel n \<noteq> None \<Longrightarrow> querySelector sel (addCopyButtonsFrom v anc n) \<noteq> None"
  unfolding querySelector_None_iff using descendants_scan by blast

subsection \<open>The forEach over the node list is the recursion over the tree\<close>

lemma visitPre_child:
  "i < length cs \<Longrightarrow>
     visitPre v (i # path) (Element t cl at cs) = Element t cl at (cs[i := visitPre v path (cs ! i)])"
  by (simp add: visitPre_def split: option.splits)

lemma fold_visit_child:
  "i < length cs \<Longrightarrow>
     fold (visitPre v) (map ((#) i) ps) (Element t cl at cs)
       = Element t cl at (cs[i := fold (visitPre v) ps (cs ! i)])"
proof (induction ps arbitrary: cs)
  case Nil
  then show ?case by simp
next
  case (Cons p ps)
  have "fold (visitPre v) (map ((#) i) (p # ps)) (Element t cl at cs)
      = fold (visitPre v) (map ((#) i) ps) (Element t cl at (cs[i := visitPre v p (cs ! i)]))"
    using Cons.prems by (simp add: visitPre_child)
  also have "\<dots> = Element t cl at
      ((cs[i := visitPre v p (cs ! i)])[i := fold (visitPre v) ps ((cs[i := visitPre v p (cs ! i)]) ! i)])"
    using Cons.prems by (intro Cons.IH) simp
  finally show ?case
    using Cons.prems by simp
qed

lemma fold_visit_children:
  "m \<le> length cs \<Longrightarrow>
     fold (visitPre v) (concat (map (\<lambda>i. map ((#) i) (P i)) [0..<m])) (Element t cl at cs)
       = Element t cl at (map (\<lambda>i. fold (visitPre v) (P i) (cs ! i)) [0..<m] @ drop m cs)"
proof (induction m)
  case 0
  then show ?case by simp
next
  case (Suc m)
  let ?done = "map (\<lambda>i. fold (visitPre v) (P i) (cs ! i)) [0..<m]"
  have m: "m < length cs" using Suc.prems by simp
  have len: "m < length (?done @ drop m cs)" using m by simp
  have at_m: "(?done @ drop m cs) ! m = cs ! m"
    using m by (simp add: nth_append)
  have "fold (visitPre v) (concat (map (\<lambda>i. map ((#) i) (P i)) [0..<Suc m])) (Element t cl at cs)
      = fold (visitPre v) (map ((#) m) (P m)) (Element t cl at (?done @ drop m cs))"
    using Suc.IH m by simp
  also have "\<dots> = Element t cl at ((?done @ drop m cs)[m := fold (visitPre v) (P m) (cs ! m)])"
    using fold_visit_child[OF len] at_m by simp
  also have "(?done @ drop m cs)[m := fold (visitPre v) (P m) (cs ! m)]
      = ?done @ fold (visitPre v) (P m) (cs ! m) # drop (Suc m) cs"
    using m by (simp add: list_update_append Cons_nth_drop_Suc[OF m, symmetric])
  finally show ?case by simp
qed

lemma map_nth_upt: "map (\<lambda>i. f (cs ! i)) [0..<length cs] = map f cs"
  by (rule nth_equalityI) simp_all

lemma forEach_tree:
  "fold (visitPre v) (querySelectorAllFrom v anc n) n = addCopyButtonsFrom v anc n"
proof (induction n arbitrary: anc)
  case (TextNode s)
  then show ?case by simp
next
  case (Element t cl at cs)
  let ?inside = "inScope v anc cl"
  let ?P = "\<lambda>i. querySelectorAllFrom v ?inside (cs ! i)"
  let ?kids = "concat (map (\<lambda>i. map ((#) i) (?P i)) [0..<length cs])"
  have IH: "map (\<lambda>i. fold (visitPre v) (?P i) (cs ! i)) [0..<length cs]
      = map (addCopyButtonsFrom v ?inside) cs"
    by (rule nth_equalityI) (simp_all add: Element.IH)
  have below: "fold (visitPre v) ?kids (Element t cl at' (cs @ extra))
      = Element t cl at' (map (addCopyButtonsFrom v ?inside) cs @ extra)" for at' extra
  proof -
    have "fold (visitPre v) ?kids (Element t cl at' (cs @ extra))
        = Element t cl at' (map (\<lambda>i. fold (visitPre v) (?P i) ((cs @ extra) ! i)) [0..<length cs]
            @ drop (length cs) (cs @ extra))"
      by (intro fold_visit_children) simp
    also have "map (\<lambda>i. fold (visitPre v) (?P i) ((cs @ extra) ! i)) [0..<length cs]
        = map (\<lambda>i. fold (visitPre v) (?P i) (cs ! i)) [0..<length cs]"
      by (simp add: nth_append)
    finally show ?thesis by (simp add: IH)
  qed
  show ?case
  proof (cases "selected anc t \<and> querySelector (ByClass ''copy-code-button'') (Element t cl at cs) = None")
    case True
    have "fold (visitPre v) (querySelectorAllFrom v anc (Element t cl at cs)) (Element t cl at cs)
        = fold (visitPre v) ?kids (Element t cl (setStyle ''position'' ''relative'' at) (cs @ [newButton v]))"
      using True by (simp add: visitPre_def)
    then show ?thesis
      unfolding scan_add[OF True] below .
  next
    case False
    have "fold (visitPre v) (querySelectorAllFrom v anc (Element t cl at cs)) (Element t cl at cs)
        = fold (visitPre v) ?kids (Element t cl at (cs @ []))"
      using False by (auto simp add: visitPre_def)
    then show ?thesis
      unfolding scan_keep[OF False] below by simp
  qed
qed

lemma addCopyButtons_tree: "addCopyButtons v d = addCopyButtonsFrom v False d"
  by (simp add: addCopyButtons_def querySelectorAll_def forEach_tree)

lemma nodeAt_blocks:
  "map (nodeAt n) (querySelectorAllFrom v anc n) = map Some (codeBlocksFrom v anc n)"
proof (induction n arbitrary: anc)
  case (TextNode s)
  then show ?case by simp
next
  case (Element t cl at cs)
  let ?inside = "inScope v anc cl"
  have "concat (map (\<lambda>i. map (nodeAt (Element t cl at cs)) (map ((#) i) (querySelectorAllFrom v ?inside (cs ! i)))) [0..<length cs])
      = concat (map (\<lambda>i. map Some (codeBlocksFrom v ?inside (cs ! i))) [0..<length cs])"
    using Element.IH by (intro arg_cong[where f = concat] map_cong) (simp_all add: comp_def)
  also have "\<dots> = concat (map (\<lambda>c. map Some (codeBlocksFrom v ?inside c)) cs)"
    by (simp add: map_nth_upt[of "\<lambda>c. map Some (codeBlocksFrom v ?inside c)"])
  finally show ?case
    by (simp add: map_concat comp_def)
qed

lemma codeBlocks_nodeAt: "map (nodeAt d) (querySelectorAll v d) = map Some (codeBlocks v d)"
  by (simp add: querySelectorAll_def codeBlocks_def nodeAt_blocks)

subsection \<open>A second scan changes nothing\<close>

lemma addCopyButtonsFrom_idem:
  "addCopyButtonsFrom v anc (addCopyButtonsFrom v anc n) = addCopyButtonsFrom v anc n"
proof (induction n arbitrary: anc)
  case (TextNode s)
  then show ?case by simp
next
  case (Element t cl at cs)
  let ?inside = "inScope v anc cl"
  let ?g = "querySelector (ByClass ''copy-code-button'')"
  let ?cs' = "map (addCopyButtonsFrom v ?inside) cs"
  have kids: "map (addCopyButtonsFrom v ?inside) ?cs' = ?cs'"
    using Element.IH by simp
  show ?case
  proof (cases "selected anc t \<and> ?g (Element t cl at cs) = None")
    case True
    let ?r = "Element t cl (setStyle ''position'' ''relative'' at) (?cs' @ [newButton v])"
    have r: "addCopyButtonsFrom v anc (Element t cl at cs) = ?r"
      using True by (rule scan_add)
    have "newButton v \<in> set (descendants ?r)"
      by simp
    then have "?g ?r \<noteq> None"
      unfolding querySelector_None_iff using newButton_class by blast
    then have "addCopyButtonsFrom v anc ?r
        = Element t cl (setStyle ''position'' ''relative'' at)
            (map (addCopyButtonsFrom v ?inside) (?cs' @ [newButton v]))"
      by (intro scan_keep) simp
    then have "addCopyButtonsFrom v anc ?r = ?r"
      by (simp only: kids map_append list.map newButton_fixed)
    with r show ?thesis by simp
  next
    case False
    let ?r = "Element t cl at ?cs'"
    have r: "addCopyButtonsFrom v anc (Element t cl at cs) = ?r"
      using False by (rule scan_keep)
    have "\<not> (selected anc t \<and> ?g ?r = None)"
    proof
      assume a: "selected anc t \<and> ?g ?r = None"
      with False have "?g (Element t cl at cs) \<noteq> None" by simp
      from guard_scan[OF this, of v anc] have "?g ?r \<noteq> None" unfolding r .
      with a show False by blast
    qed
    then have "addCopyButtonsFrom v anc ?r = Element t cl at (map (addCopyButtonsFrom v ?inside) ?cs')"
      by (rule scan_keep)
    then have "addCopyButtonsFrom v anc ?r = ?r"
      by (simp only: kids)
    with r show ?thesis by simp
  qed
qed

lemma addCopyButtons_idem: "addCopyButtons v (addCopyButtons v d) = addCopyButtons v d"
  by (simp add: addCopyButtons_tree addCopyButtonsFrom_idem)

lemma addCopyButtons_funpow:
  "1 \<le> N \<Longrightarrow> (addCopyButtons v ^^ N) d = addCopyButtons v d"
proof (induction N)
  case 0
  then show ?case by simp
next
  case (Suc N)
  show ?case
  proof (cases "N = 0")
    case True
    then show ?thesis by simp
  next
    case False
    with Suc.IH have "(addCopyButtons v ^^ N) d = addCopyButtons v d" by simp
    then show ?thesis by (simp add: addCopyButtons_idem)
  qed
qed

subsection \<open>The blocks of a scanned document\<close>

lemma codeBlocks_scan_Element:
  "codeBlocksFrom v anc (addCopyButtonsFrom v anc (Element t cl at cs))
   = (if selected anc t then [addCopyButtonsFrom v anc (Element t cl at cs)] else [])
     @ concat (map (\<lambda>c. codeBlocksFrom v (inScope v anc cl)
                          (addCopyButtonsFrom v (inScope v anc cl) c)) cs)"
proof (cases "selected anc t \<and> querySelector (ByClass ''copy-code-button'') (Element t cl at cs) = None")
  case True
  show ?thesis unfolding scan_add[OF True] by (simp add: comp_def)
next
  case False
  show ?thesis unfolding scan_keep[OF False] by (simp add: comp_def)
qed

lemma codeBlocks_scan_length:
  "length (codeBlocksFrom v anc (addCopyButtonsFrom v anc n)) = length (codeBlocksFrom v anc n)"
proof (induction n arbitrary: anc)
  case (TextNode s)
  then show ?case by simp
next
  case (Element t cl at cs)
  let ?inside = "inScope v anc cl"
  have m: "map (\<lambda>c. length (codeBlocksFrom v ?inside (addCopyButtonsFrom v ?inside c))) cs
      = map (\<lambda>c. length (codeBlocksFrom v ?inside c)) cs"
    using Element.IH by simp
  have "length (concat (map (\<lambda>c. codeBlocksFrom v ?inside (addCopyButtonsFrom v ?inside c)) cs))
      = sum_list (map (\<lambda>c. length (codeBlocksFrom v ?inside (addCopyButtonsFrom v ?inside c))) cs)"
    by (simp add: length_concat comp_def)
  also have "\<dots> = sum_list (map (\<lambda>c. length (codeBlocksFrom v ?inside c)) cs)"
    by (simp only: m)
  also have "\<dots> = length (concat (map (codeBlocksFrom v ?inside) cs))"
    by (simp add: length_concat comp_def)
  finally show ?case
    by (simp only: codeBlocks_scan_Element) simp
qed

lemma count_scan_kids:
  "length (filter (matches sel) (map (addCopyButtonsFrom v a) cs)) = length (filter (matches sel) cs)"
  by (induction cs) simp_all

lemma guard_no_child:
  "querySelector sel (Element t cl at cs) = None \<Longrightarrow> filter (matches sel) cs = []"
  by (auto simp: querySelector_None_iff filter_empty_conv)

lemma affordances_scan_Element:
  "affordances (addCopyButtonsFrom v anc (Element t cl at cs))
   = (if selected anc t \<and> querySelector (ByClass ''copy-code-button'') (Element t cl at cs) = None
      then 1 else affordances (Element t cl at cs))"
proof (cases "selected anc t \<and> querySelector (ByClass ''copy-code-button'') (Element t cl at cs) = None")
  case True
  then have "filter (matches (ByClass ''copy-code-button'')) cs = []"
    using guard_no_child by blast
  then have "length (filter (matches (ByClass ''copy-code-button''))
      (map (addCopyButtonsFrom v (inScope v anc cl)) cs)) = 0"
    unfolding count_scan_kids by simp
  then show ?thesis
    unfolding scan_add[OF True] if_P[OF True] affordances_def children.simps by simp
next
  case False
  show ?thesis
    unfolding scan_keep[OF False] if_not_P[OF False] affordances_def children.simps
      count_scan_kids ..
qed

lemma codeBlocks_scan_affordances:
  "map affordances (codeBlocksFrom v anc (addCopyButtonsFrom v anc n))
   = map (\<lambda>b. if querySelector (ByClass ''copy-code-button'') b = None then 1 else affordances b)
       (codeBlocksFrom v anc n)"
proof (induction n arbitrary: anc)
  case (TextNode s)
  then show ?case by simp
next
  case (Element t cl at cs)
  let ?inside = "inScope v anc cl"
  let ?after = "\<lambda>b. if querySelector (ByClass ''copy-code-button'') b = None then 1 else affordances b"
  have "map (\<lambda>c. map affordances (codeBlocksFrom v ?inside (addCopyButtonsFrom v ?inside c))) cs
      = map (\<lambda>c. map ?after (codeBlocksFrom v ?inside c)) cs"
    by (intro map_cong refl Element.IH)
  then have kids: "concat (map (\<lambda>c. map affordances
              (codeBlocksFrom v ?inside (addCopyButtonsFrom v ?inside c))) cs)
      = concat (map (\<lambda>c. map ?after (codeBlocksFrom v ?inside c)) cs)"
    by (rule arg_cong)
  show ?case
    unfolding codeBlocks_scan_Element
    by (simp add: map_concat comp_def kids affordances_scan_Element)
qed

subsection \<open>What the icon variant copies\<close>

lemma find_filter: "find P xs = (case filter P xs of [] \<Rightarrow> None | x # _ \<Rightarrow> Some x)"
  by (induction xs) simp_all

lemma payload_codeTexts:
  "(case querySelector (ByTag ''code'') n of Some c \<Rightarrow> innerText c | None \<Rightarrow> [])
   = (case codeTexts n of [] \<Rightarrow> [] | x # _ \<Rightarrow> x)"
  by (simp add: querySelector_def codeTexts_def find_filter split: list.splits)

lemma innerText_scan_Icon: "innerText (addCopyButtonsFrom Icon anc n) = innerText n"
proof (induction n arbitrary: anc)
  case (TextNode s)
  then show ?case by simp
next
  case (Element t cl at cs)
  have kids: "map innerText (map (addCopyButtonsFrom Icon (inScope Icon anc cl)) cs) = map innerText cs"
    using Element.IH by simp
  show ?case
  proof (cases "selected anc t \<and> querySelector (ByClass ''copy-code-button'') (Element t cl at cs) = None")
    case True
    show ?thesis
      unfolding scan_add[OF True] innerText.simps map_append kids by (simp add: copyIcon_def)
  next
    case False
    show ?thesis
      unfolding scan_keep[OF False] innerText.simps kids ..
  qed
qed

lemma codeTexts_Element:
  "codeTexts (Element t cl at cs)
   = concat (map (\<lambda>c. (if matches (ByTag ''code'') c then [innerText c] else []) @ codeTexts c) cs)"
  by (induction cs) (simp_all add: codeTexts_def)

lemma codeTexts_scan_Icon: "codeTexts (addCopyButtonsFrom Icon anc n) = codeTexts n"
proof (induction n arbitrary: anc)
  case (TextNode s)
  then show ?case by simp
next
  case (Element t cl at cs)
  let ?f = "\<lambda>c. (if matches (ByTag ''code'') c then [innerText c] else []) @ codeTexts c"
  have kids: "map ?f (map (addCopyButtonsFrom Icon (inScope Icon anc cl)) cs) = map ?f cs"
    using Element.IH by (simp add: innerText_scan_Icon)
  show ?case
  proof (cases "selected anc t \<and> querySelector (ByClass ''copy-code-button'') (Element t cl at cs) = None")
    case True
    show ?thesis
      unfolding scan_add[OF True] codeTexts_Element map_append kids
      by (simp add: codeTexts_def copyIcon_def)
  next
    case False
    show ?thesis
      unfolding scan_keep[OF False] codeTexts_Element kids ..
  qed
qed

lemma copyClickListener_scan_Icon:
  "copyClickListener Icon (addCopyButtonsFrom Icon anc n) = copyClickListener Icon n"
  by (simp add: payload_codeTexts codeTexts_scan_Icon)

lemma clicks_scan_Icon:
  "map (copyClickListener Icon) (codeBlocksFrom Icon anc (addCopyButtonsFrom Icon anc n))
   = map (copyClickListener Icon) (codeBlocksFrom Icon anc n)"
proof (induction n arbitrary: anc)
  case (TextNode s)
  then show ?case by simp
next
  case (Element t cl at cs)
  let ?inside = "inScope Icon anc cl"
  have "map (\<lambda>c. map (copyClickListener Icon)
              (codeBlocksFrom Icon ?inside (addCopyButtonsFrom Icon ?inside c))) cs
      = map (\<lambda>c. map (copyClickListener Icon) (codeBlocksFrom Icon ?inside c)) cs"
    by (intro map_cong refl Element.IH)
  then have kids: "concat (map (\<lambda>c. map (copyClickListener Icon)
              (codeBlocksFrom Icon ?inside (addCopyButtonsFrom Icon ?inside c))) cs)
      = concat (map (\<lambda>c. map (copyClickListener Icon) (codeBlocksFrom Icon ?inside c)) cs)"
    by (rule arg_cong)
  show ?case
    unfolding codeBlocks_scan_Element
    by (simp add: map_concat comp_def kids copyClickListener_scan_Icon
        del: copyClickListener.simps)
qed

declare pageLoad.simps [simp del]

subsection \<open>The bootstrap while the container is absent\<close>

lemma initializeObserver_absent:
  assumes "getElementById ''chat-history'' document = None"
  shows "initializeObserver now document s =
     (if retries s + 1 < maxRetries
      then s\<lparr>attempts := attempts s @ [now], retries := retries s + 1, timer := Some 100\<rparr>
      else s\<lparr>attempts := attempts s @ [now], retries := retries s + 1,
             consoleErrors := consoleErrors s @
               [(now, ''Failed to find targetNode ('chat-history') after multiple retries.'')]\<rparr>)"
  using assms by (simp add: initializeObserver_def Let_def)

lemma pageLoad_absent:
  "\<forall>t. getElementById ''chat-history'' (host t) = None \<Longrightarrow> retries s < maxRetries \<Longrightarrow>
    \<exists>ts. attempts (pageLoad host late now s) = attempts s @ now # ts
       \<and> length ts = maxRetries - 1 - retries s
       \<and> spaced 100 (now # ts)
       \<and> consoleErrors (pageLoad host late now s) = consoleErrors s @
            [(last (now # ts), ''Failed to find targetNode ('chat-history') after multiple retries.'')]
       \<and> timer (pageLoad host late now s) = None
       \<and> observing (pageLoad host late now s) = observing s
       \<and> rendered (pageLoad host late now s) = rendered s
       \<and> retries (pageLoad host late now s) = maxRetries"
proof (induction host late now s rule: pageLoad.induct)
  case (1 host late now s)
  let ?s1 = "initializeObserver now (host now) (s\<lparr>timer := None\<rparr>)"
  have absent: "getElementById ''chat-history'' (host now) = None"
    using "1.prems"(1) by simp
  show ?case
  proof (cases "retries s + 1 < maxRetries")
    case True
    let ?s1' = "s\<lparr>timer := None, attempts := attempts s @ [now], retries := retries s + 1,
                  timer := Some 100\<rparr>"
    let ?next = "now + 100 + late (retries s + 1)"
    have s1: "?s1 = ?s1'"
      using True by (simp add: initializeObserver_absent[OF absent])
    have unfold: "pageLoad host late now s = pageLoad host late ?next ?s1'"
      by (subst pageLoad.simps) (simp add: s1 Let_def)
    have "\<exists>ts. attempts (pageLoad host late ?next ?s1') = attempts ?s1' @ ?next # ts
       \<and> length ts = maxRetries - 1 - retries ?s1'
       \<and> spaced 100 (?next # ts)
       \<and> consoleErrors (pageLoad host late ?next ?s1') = consoleErrors ?s1' @
            [(last (?next # ts), ''Failed to find targetNode ('chat-history') after multiple retries.'')]
       \<and> timer (pageLoad host late ?next ?s1') = None
       \<and> observing (pageLoad host late ?next ?s1') = observing ?s1'
       \<and> rendered (pageLoad host late ?next ?s1') = rendered ?s1'
       \<and> retries (pageLoad host late ?next ?s1') = maxRetries"
      using "1.IH"[of ?s1 100] "1.prems"(1) True s1 by simp
    then obtain ts where ts:
      "attempts (pageLoad host late ?next ?s1') = attempts ?s1' @ ?next # ts"
      "length ts = maxRetries - 1 - retries ?s1'"
      "spaced 100 (?next # ts)"
      "consoleErrors (pageLoad host late ?next ?s1') = consoleErrors ?s1' @
            [(last (?next # ts), ''Failed to find targetNode ('chat-history') after multiple retries.'')]"
      "timer (pageLoad host late ?next ?s1') = None"
      "observing (pageLoad host late ?next ?s1') = observing ?s1'"
      "rendered (pageLoad host late ?next ?s1') = rendered ?s1'"
      "retries (pageLoad host late ?next ?s1') = maxRetries"
      by blast
    show ?thesis
    proof (intro exI[of _ "?next # ts"] conjI)
      show "attempts (pageLoad host late now s) = attempts s @ now # ?next # ts"
        using ts(1) by (simp add: unfold)
      show "length (?next # ts) = maxRetries - 1 - retries s"
        using ts(2) True by simp
      show "spaced 100 (now # ?next # ts)"
        using ts(3) by simp
      show "consoleErrors (pageLoad host late now s) = consoleErrors s @
            [(last (now # ?next # ts), ''Failed to find targetNode ('chat-history') after multiple retries.'')]"
        using ts(4) by (simp add: unfold)
      show "timer (pageLoad host late now s) = None"
        using ts(5) by (simp add: unfold)
      show "observing (pageLoad host late now s) = observing s"
        using ts(6) by (simp add: unfold)
      show "rendered (pageLoad host late now s) = rendered s"
        using ts(7) by (simp add: unfold)
      show "retries (pageLoad host late now s) = maxRetries"
        using ts(8) by (simp add: unfold)
    qed
  next
    case False
    have s1: "?s1 = s\<lparr>timer := None, attempts := attempts s @ [now], retries := retries s + 1,
        consoleErrors := consoleErrors s @
          [(now, ''Failed to find targetNode ('chat-history') after multiple retries.'')]\<rparr>"
      using False by (simp add: initializeObserver_absent[OF absent])
    have unfold: "pageLoad host late now s = ?s1"
      by (subst pageLoad.simps) (simp add: s1 Let_def)
    have r: "retries s + 1 = maxRetries"
      using False "1.prems"(2) by simp
    show ?thesis
      by (rule exI[of _ "[]"]) (use r in \<open>simp add: unfold s1\<close>)
  qed
qed

subsection \<open>The watcher's callback\<close>

lemma observerCallback_calls:
  "snd (observerCallback v ms s) = snd s + length (filter inserting ms)"
  by (induction ms arbitrary: s) simp_all

lemma observerCallback_document:
  "fst (observerCallback v ms s)
   = (if filter inserting ms = [] then fst s else (addCopyButtons v ^^ length (filter inserting ms)) (fst s))"
proof (induction ms arbitrary: s)
  case Nil
  then show ?case by simp
next
  case (Cons m ms)
  show ?case
  proof (cases "inserting m")
    case True
    then show ?thesis
      by (simp add: Cons.IH funpow_swap1)
  next
    case False
    then show ?thesis
      by (simp add: Cons.IH)
  qed
qed


section \<open>Properties of the scroll policy engine\<close>

lemma wiring_scrollToBottom: "wiring (scrollToBottom env b p) = wiring p"
  by (cases b) (auto simp: scrollToBottom_def wiring_def updateElement_def scrollTo_def Let_def fun_eq_iff)

lemma ids_scrollToBottom: "elementById (scrollToBottom env b p) = elementById p"
  by (simp add: scrollToBottom_def updateElement_def Let_def)

lemma wiring_scrollListener: "wiring (scrollListener k p) = wiring p"
  by (auto simp: scrollListener_def wiring_def updateElement_def setUserIsAtBottom_def Let_def fun_eq_iff)

lemma ids_scrollListener: "elementById (scrollListener k p) = elementById p"
  by (simp add: scrollListener_def updateElement_def setUserIsAtBottom_def Let_def)

lemma wiring_clickListener: "wiring (clickListener k p) = wiring p"
  by (simp add: clickListener_def wiring_scrollToBottom)

lemma ids_clickListener: "elementById (clickListener k p) = elementById p"
  by (simp add: clickListener_def ids_scrollToBottom)

lemma wiring_mutationCallback: "wiring (mutationCallback k p) = wiring p"
  by (simp add: mutationCallback_def wiring_scrollToBottom)

lemma ids_mutationCallback: "elementById (mutationCallback k p) = elementById p"
  by (simp add: mutationCallback_def ids_scrollToBottom)

lemma fold_frame:
  assumes "\<And>k p. wiring (h k p) = wiring p" "\<And>k p. elementById (h k p) = elementById p"
  shows "wiring (fold h ks p) = wiring p \<and> elementById (fold h ks p) = elementById p"
  by (induction ks arbitrary: p) (simp_all add: assms)

lemma setup_marked:
  "elementById p ''chat-history'' = Some c \<Longrightarrow> hasAttribute ''data-scroll-handler'' (elements p c)
   \<Longrightarrow> setupScrollHandling p = p"
  by (simp add: setupScrollHandling_def split: option.splits)

lemma dispatch_frame:
  assumes "elementById p ''chat-history'' = Some c" "hasAttribute ''data-scroll-handler'' (elements p c)"
  shows "wiring (dispatch e p) = wiring p \<and> elementById (dispatch e p) = elementById p"
proof (cases e)
  case (ScrollEvent r)
  then show ?thesis
    using fold_frame[of scrollListener, OF wiring_scrollListener ids_scrollListener] by simp
next
  case (ClickEvent r)
  then show ?thesis
    using fold_frame[of clickListener, OF wiring_clickListener ids_clickListener] by simp
next
  case (MutationBatch r)
  then show ?thesis
    using fold_frame[of mutationCallback, OF wiring_mutationCallback ids_mutationCallback] by simp
next
  case (TimeoutFired k)
  then show ?thesis
    by (simp add: timeoutCallback_def wiring_scrollToBottom ids_scrollToBottom)
next
  case BodyMutation
  then show ?thesis
    using setup_marked[OF assms] by simp
qed

lemma marked_wiring:
  "wiring q = wiring p \<Longrightarrow> hasAttribute a (elements q r) = hasAttribute a (elements p r)"
  by (simp add: wiring_def hasAttribute_def fun_eq_iff)

lemma events_frame:
  assumes "elementById p ''chat-history'' = Some c" "hasAttribute ''data-scroll-handler'' (elements p c)"
  shows "wiring (fold dispatch es p) = wiring p \<and> elementById (fold dispatch es p) = elementById p"
  using assms
proof (induction es arbitrary: p)
  case Nil
  then show ?case by simp
next
  case (Cons e es)
  have f: "wiring (dispatch e p) = wiring p" "elementById (dispatch e p) = elementById p"
    using dispatch_frame[OF Cons.prems] by simp_all
  have "elementById (dispatch e p) ''chat-history'' = Some c"
    using f(2) Cons.prems(1) by simp
  moreover have "hasAttribute ''data-scroll-handler'' (elements (dispatch e p) c)"
    using marked_wiring[OF f(1)] Cons.prems(2) by simp
  ultimately have "wiring (fold dispatch es (dispatch e p)) = wiring (dispatch e p)
      \<and> elementById (fold dispatch es (dispatch e p)) = elementById (dispatch e p)"
    by (rule Cons.IH)
  with f show ?case by simp
qed

lemma updateElement_simps:
  "elements (updateElement r f p) r' = (if r' = r then f (elements p r) else elements p r')"
  "elementById (updateElement r f p) = elementById p"
  "closures (updateElement r f p) = closures p"
  "timeouts (updateElement r f p) = timeouts p"
  "scrollRequests (updateElement r f p) = scrollRequests p"
  by (simp_all add: updateElement_def)

lemma setup_unmarked:
  assumes "elementById p ''chat-history'' = Some c"
    and "elementById p ''scroll-to-bottom-btn'' = Some b"
    and "\<not> hasAttribute ''data-scroll-handler'' (elements p c)"
  shows "setupScrollHandling p =
    (updateElement c (\<lambda>e. e\<lparr>observers := observers e @ [length (closures p)]\<rparr>)
      (updateElement b (\<lambda>e. e\<lparr>listeners := listeners e @ [(''click'', length (closures p))]\<rparr>)
        (updateElement c (\<lambda>e. e\<lparr>listeners := listeners e @ [(''scroll'', length (closures p))]\<rparr>)
          ((updateElement c (setAttribute ''data-scroll-handler'' ''true'') p)
             \<lparr>closures := closures p @
                [\<lparr>chatHistoryEl = c, scrollToBottomBtn = b, userIsAtBottom = True\<rparr>]\<rparr>))))
      \<lparr>timeouts := timeouts p @ [(200, length (closures p))]\<rparr>"
  using assms by (simp add: setupScrollHandling_def Let_def updateElement_simps)

lemma setup_installs:
  assumes "elementById p ''chat-history'' = Some c"
    and "elementById p ''scroll-to-bottom-btn'' = Some b"
    and "\<not> hasAttribute ''data-scroll-handler'' (elements p c)"
  shows "hasAttribute ''data-scroll-handler'' (elements (setupScrollHandling p) c)"
    and "closures (setupScrollHandling p)
          = closures p @ [\<lparr>chatHistoryEl = c, scrollToBottomBtn = b, userIsAtBottom = True\<rparr>]"
    and "listenersFor ''scroll'' (elements (setupScrollHandling p) c)
          = listenersFor ''scroll'' (elements p c) @ [length (closures p)]"
    and "listenersFor ''click'' (elements (setupScrollHandling p) b)
          = listenersFor ''click'' (elements p b) @ [length (closures p)]"
    and "observers (elements (setupScrollHandling p) c) = observers (elements p c) @ [length (closures p)]"
    and "elementById (setupScrollHandling p) = elementById p"
    and "timeouts (setupScrollHandling p) = timeouts p @ [(200, length (closures p))]"
  unfolding setup_unmarked[OF assms]
  by (simp_all add: updateElement_simps hasAttribute_def setAttribute_def listenersFor_def)

lemma follow_step:
  assumes "k < length (closures p)" "userIsAtBottom (closures p ! k)"
  shows "mutationCallback k p = scrollToBottom (closures p ! k) Auto p"
  using assms by (simp add: mutationCallback_def)

lemma scrollToBottom_auto:
  "elements (scrollToBottom env Auto p) (chatHistoryEl env)
     = (elements p (chatHistoryEl env))\<lparr>scrollTop := maxScrollTop (elements p (chatHistoryEl env)),
          smoothTarget := None\<rparr>"
  "closures (scrollToBottom env b p) = closures p"
  "scrollRequests (scrollToBottom env b p)
     = scrollRequests p @ [(chatHistoryEl env, int (scrollHeight (elements p (chatHistoryEl env))), b)]"
  by (simp_all add: scrollToBottom_def updateElement_def Let_def scrollTo_def maxScrollTop_def)


















lemma freshPage_simps:
  "elementById (freshPage sh ch st) ''chat-history'' = Some 0"
  "elementById (freshPage sh ch st) ''scroll-to-bottom-btn'' = Some 1"
  "elements (freshPage sh ch st) 0 = box sh ch st"
  "elements (freshPage sh ch st) (Suc 0) = box 0 0 0"
  "closures (freshPage sh ch st) = []"
  "scrollRequests (freshPage sh ch st) = []"
  "\<not> hasAttribute a (box sh ch st)"
  by (simp_all add: freshPage_def hasAttribute_def box_def)

lemma setup_freshPage:
  "closures (setupScrollHandling (freshPage sh ch st))
     = [\<lparr>chatHistoryEl = 0, scrollToBottomBtn = 1, userIsAtBottom = True\<rparr>]"
  "scrollRequests (setupScrollHandling (freshPage sh ch st)) = []"
  "scrollTop (elements (setupScrollHandling (freshPage sh ch st)) 0) = st"
  "scrollHeight (elements (setupScrollHandling (freshPage sh ch st)) 0) = sh"
  "clientHeight (elements (setupScrollHandling (freshPage sh ch st)) 0) = ch"
  "elementById (setupScrollHandling (freshPage sh ch st)) ''chat-history'' = Some 0"
  unfolding setup_unmarked[of "freshPage sh ch st" 0 1, OF freshPage_simps(1,2)
      freshPage_simps(7)[of "''data-scroll-handler''" sh ch st, folded freshPage_simps(3)]]
  by (simp_all add: updateElement_simps freshPage_simps setAttribute_def box_def)


section \<open>The claims\<close>

text \<open>
  Claim C1, as stated, at a block without a \<^verbatim>\<open>code\<close> child. The icon variant scans a
  tool-call accordion that holds \<^verbatim>\<open><pre>print(1)</pre>\<close>. The block's rendered text is
  \<open>print(1)\<close>, and the click writes the empty string: the listener reads the block's
  first \<^verbatim>\<open>code\<close> descendant and falls back to \<^verbatim>\<open>''\<close> when there is none.
\<close>

theorem copy_payload_without_code_counterexample:
  "codeBlocks Icon (addCopyButtons Icon
      (Element ''div'' [''tool-call-accordion''] [] [Element ''pre'' [] [] [TextNode ''print(1)'']]))
     = [Element ''pre'' [] [(''style.position'', ''relative'')] [TextNode ''print(1)'', newButton Icon]]
   \<and> innerText (Element ''pre'' [] [(''style.position'', ''relative'')]
        [TextNode ''print(1)'', newButton Icon]) = ''print(1)''
   \<and> copyClickListener Icon (Element ''pre'' [] [(''style.position'', ''relative'')]
        [TextNode ''print(1)'', newButton Icon]) = [ClipboardWriteText []]
   \<and> copyClickListener Icon (Element ''pre'' [] [(''style.position'', ''relative'')]
        [TextNode ''print(1)'', newButton Icon]) \<noteq> [ClipboardWriteText ''print(1)'']"
  by (simp add: codeBlocks_def addCopyButtons_tree scan_add scan_keep selected_def inScope_def
      querySelector_def setStyle_def copyIcon_def)

text \<open>
  Claim C1, amended. Activating a copy control issues exactly one clipboard-write
  request (either variant). In the icon variant, for every CodeBlock of a scanned
  document, the payload is the rendered text of the first \<^verbatim>\<open>code\<close> descendant the block
  had before the scan, the empty string if it had none: the scan and its buttons add
  nothing to it. So the control of a CodeBlock whose \<^verbatim>\<open>code\<close> element renders
  \<open>print(1)\<close> copies exactly \<open>print(1)\<close>.
\<close>

theorem copy_payload_icon:
  "length (copyClickListener v preElement) = 1
   \<and> map (copyClickListener Icon) (codeBlocks Icon (addCopyButtons Icon d))
       = map (\<lambda>b. [ClipboardWriteText (case querySelector (ByTag ''code'') b of
                       Some codeElement \<Rightarrow> innerText codeElement | None \<Rightarrow> [])])
           (codeBlocks Icon d)
   \<and> (i < length (codeBlocks Icon d) \<longrightarrow>
        querySelector (ByTag ''code'') (codeBlocks Icon d ! i) = Some c \<longrightarrow>
        innerText c = ''print(1)'' \<longrightarrow>
        copyClickListener Icon (codeBlocks Icon (addCopyButtons Icon d) ! i)
          = [ClipboardWriteText ''print(1)''])"
proof -
  have one: "length (copyClickListener v preElement) = 1"
    by (cases v) (simp_all add: Let_def)
  have all: "map (copyClickListener Icon) (codeBlocks Icon (addCopyButtons Icon d))
      = map (copyClickListener Icon) (codeBlocks Icon d)"
    by (simp add: codeBlocks_def addCopyButtons_tree clicks_scan_Icon)
  have len: "length (codeBlocks Icon (addCopyButtons Icon d)) = length (codeBlocks Icon d)"
    by (simp add: codeBlocks_def addCopyButtons_tree codeBlocks_scan_length)
  have ith: "copyClickListener Icon (codeBlocks Icon (addCopyButtons Icon d) ! i)
      = copyClickListener Icon (codeBlocks Icon d ! i)" if "i < length (codeBlocks Icon d)"
  proof -
    have "copyClickListener Icon (codeBlocks Icon (addCopyButtons Icon d) ! i)
        = map (copyClickListener Icon) (codeBlocks Icon (addCopyButtons Icon d)) ! i"
      using that len by simp
    also have "\<dots> = map (copyClickListener Icon) (codeBlocks Icon d) ! i"
      by (simp only: all)
    finally show ?thesis using that by simp
  qed
  show ?thesis
    using one all ith by (simp add: Let_def)
qed

text \<open>
  Claim C1, amended, on a highlight container that holds
  \<^verbatim>\<open><pre><code>print(1)</code></pre>\<close>.
\<close>

theorem copy_payload_icon_witness:
  "0 < length (codeBlocks Icon (Element ''div'' [''highlight-container''] []
        [Element ''pre'' [] [] [Element ''code'' [] [] [TextNode ''print(1)'']]]))
   \<and> querySelector (ByTag ''code'') (codeBlocks Icon (Element ''div'' [''highlight-container''] []
        [Element ''pre'' [] [] [Element ''code'' [] [] [TextNode ''print(1)'']]]) ! 0)
       = Some (Element ''code'' [] [] [TextNode ''print(1)''])
   \<and> innerText (Element ''code'' [] [] [TextNode ''print(1)'']) = ''print(1)''
   \<and> copyClickListener Icon (codeBlocks Icon (addCopyButtons Icon
        (Element ''div'' [''highlight-container''] []
          [Element ''pre'' [] [] [Element ''code'' [] [] [TextNode ''print(1)'']]])) ! 0)
       = [ClipboardWriteText ''print(1)'']"
proof -
  let ?d = "Element ''div'' [''highlight-container''] []
        [Element ''pre'' [] [] [Element ''code'' [] [] [TextNode ''print(1)'']]]"
  let ?c = "Element ''code'' [] [] [TextNode ''print(1)'']"
  have h: "0 < length (codeBlocks Icon ?d)"
    "querySelector (ByTag ''code'') (codeBlocks Icon ?d ! 0) = Some ?c"
    "innerText ?c = ''print(1)''"
    by (simp_all add: codeBlocks_def selected_def inScope_def querySelector_def)
  from copy_payload_icon[of Icon "TextNode []" ?d 0 ?c] h
  have "copyClickListener Icon (codeBlocks Icon (addCopyButtons Icon ?d) ! 0)
      = [ClipboardWriteText ''print(1)'']"
    by blast
  with h show ?thesis by blast
qed

text \<open>
  The text variant reads the whole block, and its button is a child of the block: after
  the scan the label is part of what is copied.
\<close>

lemma copy_payload_label_example:
  "codeBlocks Label (addCopyButtons Label
      (Element ''div'' [''highlight''] [] [Element ''pre'' [] [] [TextNode ''print(1)'']]))
     = [Element ''pre'' [] [(''style.position'', ''relative'')] [TextNode ''print(1)'', newButton Label]]
   \<and> copyClickListener Label (Element ''pre'' [] [(''style.position'', ''relative'')]
        [TextNode ''print(1)'', newButton Label]) = [ClipboardWriteText ''print(1)Copy'']"
  by (simp add: codeBlocks_def addCopyButtons_tree scan_add scan_keep selected_def inScope_def
      querySelector_def setStyle_def)

text \<open>
  Claim C2, as stated, on a container in which a CodeBlock holds another CodeBlock that
  already has its control. The guard looks for a control anywhere below the block, so the
  outer block counts as served: the scan changes nothing, and after three scans the outer
  block has no control attached and the inner one has one.
\<close>

theorem nested_block_without_control_counterexample:
  "(1::nat) \<le> 3
   \<and> codeBlocks Icon (Element ''div'' [''highlight-container''] []
        [Element ''pre'' [] [] [Element ''pre'' [] [] [TextNode ''b'', newButton Icon]]])
       = [Element ''pre'' [] [] [Element ''pre'' [] [] [TextNode ''b'', newButton Icon]],
          Element ''pre'' [] [] [TextNode ''b'', newButton Icon]]
   \<and> (addCopyButtons Icon ^^ 3) (Element ''div'' [''highlight-container''] []
        [Element ''pre'' [] [] [Element ''pre'' [] [] [TextNode ''b'', newButton Icon]]])
       = Element ''div'' [''highlight-container''] []
        [Element ''pre'' [] [] [Element ''pre'' [] [] [TextNode ''b'', newButton Icon]]]
   \<and> map affordances (codeBlocks Icon ((addCopyButtons Icon ^^ 3)
        (Element ''div'' [''highlight-container''] []
          [Element ''pre'' [] [] [Element ''pre'' [] [] [TextNode ''b'', newButton Icon]]])))
       = [0, 1]"
proof -
  let ?d = "Element ''div'' [''highlight-container''] []
        [Element ''pre'' [] [] [Element ''pre'' [] [] [TextNode ''b'', newButton Icon]]]"
  have blocks: "codeBlocks Icon ?d
       = [Element ''pre'' [] [] [Element ''pre'' [] [] [TextNode ''b'', newButton Icon]],
          Element ''pre'' [] [] [TextNode ''b'', newButton Icon]]"
    by (simp add: codeBlocks_def selected_def inScope_def copyIcon_def)
  have once: "addCopyButtons Icon ?d = ?d"
    by (simp add: addCopyButtons_tree scan_add scan_keep selected_def inScope_def
        querySelector_def copyIcon_def)
  have thrice: "(addCopyButtons Icon ^^ 3) ?d = ?d"
    using addCopyButtons_funpow[of 3 Icon ?d] once by simp
  have "map affordances (codeBlocks Icon ?d) = [0, 1]"
    unfolding blocks by (simp add: affordances_def copyIcon_def)
  with blocks thrice show ?thesis by simp
qed

text \<open>
  Claim C2, amended. For every container and every \<open>N \<ge> 1\<close>, scanning \<open>N\<close> times
  gives the same document as scanning once, so every CodeBlock has as many controls
  attached after the \<open>N\<close>-th scan as after the first. That number is exactly one for
  every CodeBlock that had no element of class \<^verbatim>\<open>copy-code-button\<close> below it before the
  first scan; every other CodeBlock keeps the controls it had attached and gets no
  further one.
\<close>

theorem injection_idempotent:
  "1 \<le> N \<Longrightarrow>
     (addCopyButtons v ^^ N) d = addCopyButtons v d
     \<and> map affordances (codeBlocks v ((addCopyButtons v ^^ N) d))
         = map (\<lambda>b. if querySelector (ByClass ''copy-code-button'') b = None then 1
                     else affordances b) (codeBlocks v d)"
  by (simp add: addCopyButtons_funpow codeBlocks_def addCopyButtons_tree
      codeBlocks_scan_affordances)

text \<open>
  Claim C2, amended, on three scans of a transcript in mid-stream: a block that was
  scanned before, a new block, and a new block nested in a new block. Four CodeBlocks,
  one control each.
\<close>

theorem injection_idempotent_witness:
  "(1::nat) \<le> 3
   \<and> map affordances (codeBlocks Icon ((addCopyButtons Icon ^^ 3)
        (Element ''div'' [''highlight-container''] []
          [Element ''pre'' [] [(''style.position'', ''relative'')]
             [Element ''code'' [] [] [TextNode ''a''], newButton Icon],
           Element ''pre'' [] [] [Element ''code'' [] [] [TextNode ''b'']],
           Element ''pre'' [] [] [Element ''pre'' [] [] [TextNode ''c'']]]))) = [1, 1, 1, 1]"
proof -
  let ?d = "Element ''div'' [''highlight-container''] []
          [Element ''pre'' [] [(''style.position'', ''relative'')]
             [Element ''code'' [] [] [TextNode ''a''], newButton Icon],
           Element ''pre'' [] [] [Element ''code'' [] [] [TextNode ''b'']],
           Element ''pre'' [] [] [Element ''pre'' [] [] [TextNode ''c'']]]"
  have h: "(1::nat) \<le> 3" by simp
  have before: "map (\<lambda>b. if querySelector (ByClass ''copy-code-button'') b = None then 1
                     else affordances b) (codeBlocks Icon ?d) = [1, 1, 1, 1]"
    by (simp add: codeBlocks_def selected_def inScope_def querySelector_def affordances_def
        copyIcon_def)
  have "map affordances (codeBlocks Icon ((addCopyButtons Icon ^^ 3) ?d)) = [1, 1, 1, 1]"
    using injection_idempotent[OF h, of Icon ?d, THEN conjunct2] unfolding before .
  with h show ?thesis by blast
qed

text \<open>
  Claim C3. When the observer callback of an installation runs with \<^verbatim>\<open>userIsAtBottom\<close>
  true, the container ends at its maximum scroll offset for the layout of that moment,
  no animation is pending, the layout is untouched, and the one scroll request made is
  an instant one (\<^verbatim>\<open>behavior: 'auto'\<close>) to the scroll height.
\<close>

theorem auto_follow:
  "k < length (closures p) \<Longrightarrow> userIsAtBottom (closures p ! k) \<Longrightarrow>
     scrollTop (elements (mutationCallback k p) (chatHistoryEl (closures p ! k)))
       = maxScrollTop (elements p (chatHistoryEl (closures p ! k)))
     \<and> maxScrollTop (elements (mutationCallback k p) (chatHistoryEl (closures p ! k)))
       = maxScrollTop (elements p (chatHistoryEl (closures p ! k)))
     \<and> smoothTarget (elements (mutationCallback k p) (chatHistoryEl (closures p ! k))) = None
     \<and> scrollRequests (mutationCallback k p)
       = scrollRequests p @
           [(chatHistoryEl (closures p ! k),
             int (scrollHeight (elements p (chatHistoryEl (closures p ! k)))), Auto)]"
  by (simp add: follow_step scrollToBottom_auto maxScrollTop_def)

text \<open>
  Claim C3 on a container of height 500 with 1200 of content, scrolled to 300, right
  after installation: the callback moves it to 700.
\<close>

theorem auto_follow_witness:
  "0 < length (closures (setupScrollHandling (freshPage 1200 500 300)))
   \<and> userIsAtBottom (closures (setupScrollHandling (freshPage 1200 500 300)) ! 0)
   \<and> scrollTop (elements (mutationCallback 0 (setupScrollHandling (freshPage 1200 500 300))) 0) = 700
   \<and> scrollRequests (mutationCallback 0 (setupScrollHandling (freshPage 1200 500 300)))
       = [(0, 1200, Auto)]"
  using auto_follow[of 0 "setupScrollHandling (freshPage 1200 500 300)"]
  by (simp add: setup_freshPage maxScrollTop_def)

text \<open>
  Claim C4. When the observer callback of an installation runs with \<^verbatim>\<open>userIsAtBottom\<close>
  false, the page is exactly as before: no scroll position changes and no scroll
  request is made.
\<close>

theorem non_interference:
  "k < length (closures p) \<Longrightarrow> \<not> userIsAtBottom (closures p ! k) \<Longrightarrow>
     mutationCallback k p = p"
  by (simp add: mutationCallback_def)

text \<open>
  Claim C4 after a scroll event that found the viewer 400 away from the bottom.
\<close>

theorem non_interference_witness:
  "0 < length (closures (scrollListener 0 (setupScrollHandling (freshPage 1200 500 300))))
   \<and> \<not> userIsAtBottom (closures (scrollListener 0 (setupScrollHandling (freshPage 1200 500 300))) ! 0)
   \<and> mutationCallback 0 (scrollListener 0 (setupScrollHandling (freshPage 1200 500 300)))
       = scrollListener 0 (setupScrollHandling (freshPage 1200 500 300))"
proof -
  let ?p = "scrollListener 0 (setupScrollHandling (freshPage 1200 500 300))"
  have c: "closures ?p = [\<lparr>chatHistoryEl = 0, scrollToBottomBtn = 1, userIsAtBottom = False\<rparr>]"
    by (simp add: scrollListener_def setup_freshPage Let_def isScrolledToBottom_def
        setUserIsAtBottom_def updateElement_simps)
  then have h: "0 < length (closures ?p)" "\<not> userIsAtBottom (closures ?p ! 0)"
    by simp_all
  from non_interference[OF h] h show ?thesis by blast
qed



text \<open>
  Claim C6. If the container is in the document at no time, the page load of the icon
  variant looks it up exactly 20 times, the first time at \<^verbatim>\<open>DOMContentLoaded\<close> and any
  two consecutive times at least 100 ms apart; the terminal error is logged once, in the
  call of the last attempt; and afterwards no timer is pending, no observer is installed
  and no scan has run, so nothing of the script can run again.
\<close>

theorem bootstrap_bound:
  "\<forall>t. getElementById ''chat-history'' (host t) = None \<Longrightarrow>
     length (attempts (pageLoad host late t0 bootInit)) = 20
     \<and> hd (attempts (pageLoad host late t0 bootInit)) = t0
     \<and> spaced 100 (attempts (pageLoad host late t0 bootInit))
     \<and> consoleErrors (pageLoad host late t0 bootInit)
         = [(last (attempts (pageLoad host late t0 bootInit)),
             ''Failed to find targetNode ('chat-history') after multiple retries.'')]
     \<and> timer (pageLoad host late t0 bootInit) = None
     \<and> \<not> observing (pageLoad host late t0 bootInit)
     \<and> rendered (pageLoad host late t0 bootInit) = None"
proof -
  assume absent: "\<forall>t. getElementById ''chat-history'' (host t) = None"
  have "retries bootInit < maxRetries"
    by (simp add: bootInit_def maxRetries_def)
  from pageLoad_absent[OF absent this, of late t0]
  obtain ts where ts:
    "attempts (pageLoad host late t0 bootInit) = attempts bootInit @ t0 # ts"
    "length ts = maxRetries - 1 - retries bootInit"
    "spaced 100 (t0 # ts)"
    "consoleErrors (pageLoad host late t0 bootInit) = consoleErrors bootInit @
       [(last (t0 # ts), ''Failed to find targetNode ('chat-history') after multiple retries.'')]"
    "timer (pageLoad host late t0 bootInit) = None"
    "observing (pageLoad host late t0 bootInit) = observing bootInit"
    "rendered (pageLoad host late t0 bootInit) = rendered bootInit"
    by blast
  have a: "attempts (pageLoad host late t0 bootInit) = t0 # ts"
    using ts(1) by (simp add: bootInit_def)
  show ?thesis
    unfolding a using ts(2-7) by (simp add: bootInit_def maxRetries_def)
qed

text \<open>
  Claim C6 on a document that is an empty body throughout, with timers that fire
  \<open>3 * k\<close> ms late.
\<close>

theorem bootstrap_bound_witness:
  "(\<forall>t. getElementById ''chat-history'' (Element ''body'' [] [] []) = None)
   \<and> length (attempts (pageLoad (\<lambda>t. Element ''body'' [] [] []) (\<lambda>k. 3 * k) 0 bootInit)) = 20
   \<and> spaced 100 (attempts (pageLoad (\<lambda>t. Element ''body'' [] [] []) (\<lambda>k. 3 * k) 0 bootInit))
   \<and> timer (pageLoad (\<lambda>t. Element ''body'' [] [] []) (\<lambda>k. 3 * k) 0 bootInit) = None"
proof -
  have h: "\<forall>t. getElementById ''chat-history'' ((\<lambda>t. Element ''body'' [] [] []) t) = None"
    by (simp add: getElementById_def)
  from bootstrap_bound[OF h, of "\<lambda>k. 3 * k" 0] h show ?thesis by simp
qed

text \<open>
  Claim C7, as stated, in the icon variant. A rejected write schedules nothing; and if
  the button shows the success icon of an earlier copy when the rejection arrives, it
  keeps showing it.
\<close>

theorem icon_failure_schedules_nothing_counterexample:
  "scheduled (writeRejected Icon ''NotAllowedError'' (newButton Icon)) = []
   \<and> stateOf (button (writeRejected Icon ''NotAllowedError''
        (button (writeFulfilled Icon (newButton Icon))))) = Success
   \<and> scheduled (writeRejected Icon ''NotAllowedError''
        (button (writeFulfilled Icon (newButton Icon)))) = []"
  by (simp add: stateOf_def)

text \<open>
  Claim C7, amended. A rejected write is logged in either variant. The icon variant has
  no error presentation: it leaves the button as it is and sets no timer. The text
  variant shows \<open>Error!\<close> and sets one timer of 2000 ms that restores \<open>Copy\<close>.
\<close>

theorem clipboard_failure_handling:
  "logged (writeRejected v err b) = [''Failed to copy text: '' @ err]
   \<and> button (writeRejected Icon err b) = b
   \<and> scheduled (writeRejected Icon err b) = []
   \<and> stateOf (button (writeRejected Label err (Element t cl at cs))) = Failed
   \<and> scheduled (writeRejected Label err b) = [(2000, [TextNode ''Copy''])]
   \<and> stateOf (replaceChildren [TextNode ''Copy'']
        (button (writeRejected Label err (Element t cl at cs)))) = Idle"
  by (cases v) (simp_all add: stateOf_def checkIcon_def)

text \<open>
  Claim C8, as stated, on a batch of two records that each insert a node: the scan runs
  twice.
\<close>

theorem two_inserting_records_counterexample:
  "snd (observerCallback Icon
      [\<lparr>recordType = ''childList'', addedNodes = [TextNode ''a'']\<rparr>,
       \<lparr>recordType = ''childList'', addedNodes = [TextNode ''b'']\<rparr>]
      (Element ''body'' [] [] [], 0)) = 2"
  by (simp add: inserting_def)

text \<open>
  Claim C8, amended. For a batch the callback runs the scan once for each record of
  type \<^verbatim>\<open>childList\<close> with at least one added node. Since scanning again changes
  nothing, the document after the batch is the one a single scan gives, whenever the
  batch has such a record, and is left alone otherwise.
\<close>

theorem scan_per_inserting_record:
  "snd (observerCallback v ms (d, n)) = n + length (filter inserting ms)
   \<and> fst (observerCallback v ms (d, n))
       = (if filter inserting ms = [] then d else addCopyButtons v d)"
proof -
  have "filter inserting ms \<noteq> [] \<Longrightarrow> 1 \<le> length (filter inserting ms)"
    by (cases "filter inserting ms") simp_all
  then show ?thesis
    by (simp add: observerCallback_calls observerCallback_document addCopyButtons_funpow)
qed

text \<open>Claim C8, amended, on a batch of three records, two of them inserting.\<close>

theorem scan_per_inserting_record_witness:
  "snd (observerCallback Label
      [\<lparr>recordType = ''childList'', addedNodes = [TextNode ''a'']\<rparr>,
       \<lparr>recordType = ''childList'', addedNodes = []\<rparr>,
       \<lparr>recordType = ''childList'', addedNodes = [TextNode ''b'', TextNode ''c'']\<rparr>]
      (Element ''div'' [''highlight''] [] [Element ''pre'' [] [] [TextNode ''x'']], 0)) = 2
   \<and> fst (observerCallback Label
      [\<lparr>recordType = ''childList'', addedNodes = [TextNode ''a'']\<rparr>,
       \<lparr>recordType = ''childList'', addedNodes = []\<rparr>,
       \<lparr>recordType = ''childList'', addedNodes = [TextNode ''b'', TextNode ''c'']\<rparr>]
      (Element ''div'' [''highlight''] [] [Element ''pre'' [] [] [TextNode ''x'']], 0))
     = addCopyButtons Label (Element ''div'' [''highlight''] [] [Element ''pre'' [] [] [TextNode ''x'']])"
  using scan_per_inserting_record[of Label
      "[\<lparr>recordType = ''childList'', addedNodes = [TextNode ''a'']\<rparr>,
       \<lparr>recordType = ''childList'', addedNodes = []\<rparr>,
       \<lparr>recordType = ''childList'', addedNodes = [TextNode ''b'', TextNode ''c'']\<rparr>]"
      "Element ''div'' [''highlight''] [] [Element ''pre'' [] [] [TextNode ''x'']]" 0]
  by (simp add: inserting_def)

text \<open>
  What the guard does ensure. Once both handles are resolved and the container carries
  no marker, \<^verbatim>\<open>setupScrollHandling\<close> sets \<^verbatim>\<open>data-scroll-handler\<close> on the container and
  adds one scroll listener and one observer to it and one click listener to the jump
  control. While the same container stays in the document the marker stays: running the
  initializer again changes nothing, and no sequence of events of the engine
  (re-invocations by the body observer among them) changes the attributes, listeners or
  observers of any element. On any page whatever, a run that finds the marker on the
  container changes nothing.
\<close>

lemma marked_container_no_reinstall:
  assumes "elementById p ''chat-history'' = Some c"
    and "elementById p ''scroll-to-bottom-btn'' = Some b"
    and "\<not> hasAttribute ''data-scroll-handler'' (elements p c)"
  shows "hasAttribute ''data-scroll-handler'' (elements (setupScrollHandling p) c)
    \<and> listenersFor ''scroll'' (elements (setupScrollHandling p) c)
        = listenersFor ''scroll'' (elements p c) @ [length (closures p)]
    \<and> listenersFor ''click'' (elements (setupScrollHandling p) b)
        = listenersFor ''click'' (elements p b) @ [length (closures p)]
    \<and> observers (elements (setupScrollHandling p) c) = observers (elements p c) @ [length (closures p)]
    \<and> setupScrollHandling (setupScrollHandling p) = setupScrollHandling p
    \<and> wiring (fold dispatch es (setupScrollHandling p)) = wiring (setupScrollHandling p)
    \<and> setupScrollHandling (fold dispatch es (setupScrollHandling p))
        = fold dispatch es (setupScrollHandling p)
    \<and> (elementById q ''chat-history'' = Some c' \<longrightarrow>
         hasAttribute ''data-scroll-handler'' (elements q c') \<longrightarrow>
         setupScrollHandling q = q)"
proof -
  let ?p1 = "setupScrollHandling p"
  note inst = setup_installs[OF assms]
  have any: "elementById q ''chat-history'' = Some c' \<longrightarrow>
         hasAttribute ''data-scroll-handler'' (elements q c') \<longrightarrow>
         setupScrollHandling q = q"
    using setup_marked by blast
  have id1: "elementById ?p1 ''chat-history'' = Some c"
    using inst(6) assms(1) by simp
  have frame: "wiring (fold dispatch es ?p1) = wiring ?p1"
      "elementById (fold dispatch es ?p1) = elementById ?p1"
    using events_frame[OF id1 inst(1), of es] by simp_all
  have "hasAttribute ''data-scroll-handler'' (elements (fold dispatch es ?p1) c)"
    using marked_wiring[OF frame(1)] inst(1) by simp
  moreover have "elementById (fold dispatch es ?p1) ''chat-history'' = Some c"
    using frame(2) id1 by simp
  ultimately have "setupScrollHandling (fold dispatch es ?p1) = fold dispatch es ?p1"
    by (intro setup_marked)
  moreover have "setupScrollHandling ?p1 = ?p1"
    using id1 inst(1) by (rule setup_marked)
  ultimately show ?thesis
    using inst(1,3,4,5) frame(1) any by simp
qed





end
